theory Spec2Isabelle
  imports Complex_Main "HOL-Library.AList"
begin

section \<open>Data model of \<open>scripts/analysis_data_export.py\<close>\<close>

text \<open>
  Python exceptions that the modelled code can raise.
\<close>

datatype error = KeyError | ZeroDivisionError | ValueError | TypeError

text \<open>
  The simulator interface \<open>sim\<close> is outside the script. Everything the script reads from
  it is a field of the environment handed to each operation:
  \<open>sim.stats.time()\<close>, \<open>sim.stats.get('performance_model', core, 'instruction_count')\<close>,
  \<open>sim.dvfs.get_core_state(core)\<close>, the constant \<open>sim.util.Time.US\<close> (the number of
  simulator time units in one microsecond), \<open>sim.config.output_dir\<close> and
  \<open>sim.config.ncores\<close>.
\<close>

record sim_env =
  stats_time :: int
  stats_instruction_count :: "int \<Rightarrow> int"
  dvfs_get_core_state :: "int \<Rightarrow> int"
  Time_US :: int
  config_output_dir :: string
  config_ncores :: int

text \<open>
  The record dictionary built in \<open>record_branch_event\<close>; the key \<open>'states'\<close> holds the
  list of \<open>(elapsed_time, current_state)\<close> tuples.
\<close>

record obs_record =
  event_id :: int
  core_id :: int
  ip :: int
  branch_taken :: bool
  start_time :: int
  instruction_count :: int
  states :: "(int \<times> int) list"

text \<open>
  \<open>class CoreStateAnalyzer\<close>. A Python dictionary keeps its keys unique and in insertion
  order, so \<open>active_records\<close> is an association list: \<open>d[k] = v\<close> is \<open>AList.update k v d\<close>
  (replace in place, or append a new key at the end), \<open>del d[k]\<close> is \<open>AList.delete k d\<close>
  and \<open>d[k]\<close> is \<open>map_of d k\<close>, with \<open>None\<close> standing for KeyError.
\<close>

record analyzer =
  an_core_id :: int
  an_results_folder :: string
  an_observation_window :: int
  an_sampling_period :: int
  active_records :: "(int \<times> obs_record) list"
  completed_records :: "obs_record list"
  next_event_id :: int

definition CoreStateAnalyzer :: "int \<Rightarrow> string \<Rightarrow> int \<Rightarrow> int \<Rightarrow> analyzer" where
  "CoreStateAnalyzer cid folder window period =
     \<lparr> an_core_id = cid, an_results_folder = folder,
       an_observation_window = window, an_sampling_period = period,
       active_records = [], completed_records = [], next_event_id = 1 \<rparr>"

section \<open>Per-core analyzer\<close>

definition record_branch_event ::
    "sim_env \<Rightarrow> analyzer \<Rightarrow> int \<Rightarrow> bool \<Rightarrow> bool \<Rightarrow> bool \<Rightarrow> analyzer" where
  "record_branch_event sim a ip_arg predicted actual indirect =
     (let eid = next_event_id a;
          a1 = a\<lparr> next_event_id := next_event_id a + 1 \<rparr>;
          rec = \<lparr> event_id = eid, core_id = an_core_id a1, ip = ip_arg,
                  branch_taken = actual, start_time = stats_time sim,
                  instruction_count = stats_instruction_count sim (an_core_id a1),
                  states = [] \<rparr>
      in a1\<lparr> active_records := AList.update eid rec (active_records a1) \<rparr>)"

text \<open>
  The body of the loop of \<open>collect_state_sample\<close>, run over the snapshot
  \<open>list(self.active_records.keys())\<close>. Appending to \<open>record['states']\<close> mutates the
  dictionary stored under \<open>event_id\<close>, hence the in-place update of that entry.
\<close>

fun sample_loop :: "sim_env \<Rightarrow> int \<Rightarrow> int \<Rightarrow> int list \<Rightarrow> analyzer \<Rightarrow> error + analyzer" where
  "sample_loop sim time current_state [] a = Inr a"
| "sample_loop sim time current_state (eid # eids) a =
     (case map_of (active_records a) eid of
        None \<Rightarrow> Inl KeyError
      | Some rec \<Rightarrow>
          (let elapsed_time = time - start_time rec;
               rec1 = rec\<lparr> states := states rec @ [(elapsed_time, current_state)] \<rparr>;
               a1 = a\<lparr> active_records := AList.update eid rec1 (active_records a) \<rparr>
           in if elapsed_time > an_observation_window a1 * Time_US sim
              then sample_loop sim time current_state eids
                     (a1\<lparr> completed_records := completed_records a1 @ [rec1],
                          active_records := AList.delete eid (active_records a1) \<rparr>)
              else sample_loop sim time current_state eids a1))"

definition collect_state_sample :: "sim_env \<Rightarrow> analyzer \<Rightarrow> int \<Rightarrow> int \<Rightarrow> error + analyzer" where
  "collect_state_sample sim a time time_delta =
     (if time_delta = 0 then Inr a
      else let current_state = dvfs_get_core_state sim (an_core_id a)
           in sample_loop sim time current_state (map fst (active_records a)) a)"

text \<open>
  What one tick does to a single record, and when the record's window is over; these two
  abbreviations only shorten the statements below.
\<close>

definition add_sample :: "sim_env \<Rightarrow> analyzer \<Rightarrow> int \<Rightarrow> obs_record \<Rightarrow> obs_record" where
  "add_sample sim a time rec =
     rec\<lparr> states := states rec @ [(time - start_time rec, dvfs_get_core_state sim (an_core_id a))] \<rparr>"

definition window_over :: "sim_env \<Rightarrow> analyzer \<Rightarrow> int \<Rightarrow> obs_record \<Rightarrow> bool" where
  "window_over sim a time rec \<longleftrightarrow> time - start_time rec > an_observation_window a * Time_US sim"

text \<open>
  A driver for one analyzer: the two calls it can receive, each with the simulator
  environment of that moment, delivered in order. The trace lists, for every call, the
  keys that are in \<open>active_records\<close> after the call and were not before it, that is the
  event ids handed out by that call.
\<close>

datatype tracker_event =
    Branch sim_env int bool bool bool
  | Tick sim_env int int

fun tracker_step :: "analyzer \<Rightarrow> tracker_event \<Rightarrow> error + analyzer" where
  "tracker_step a (Branch sim ip_arg predicted actual indirect) =
     Inr (record_branch_event sim a ip_arg predicted actual indirect)"
| "tracker_step a (Tick sim time time_delta) = collect_state_sample sim a time time_delta"

fun tracker_run :: "analyzer \<Rightarrow> tracker_event list \<Rightarrow> error + analyzer" where
  "tracker_run a [] = Inr a"
| "tracker_run a (ev # evs) =
     (case tracker_step a ev of Inl e \<Rightarrow> Inl e | Inr a1 \<Rightarrow> tracker_run a1 evs)"

definition new_event_ids :: "analyzer \<Rightarrow> analyzer \<Rightarrow> int list" where
  "new_event_ids a a1 =
     filter (\<lambda>k. k \<notin> set (map fst (active_records a))) (map fst (active_records a1))"

fun tracker_trace :: "analyzer \<Rightarrow> tracker_event list \<Rightarrow> error + int list" where
  "tracker_trace a [] = Inr []"
| "tracker_trace a (ev # evs) =
     (case tracker_step a ev of
        Inl e \<Rightarrow> Inl e
      | Inr a1 \<Rightarrow>
          (case tracker_trace a1 evs of
             Inl e \<Rightarrow> Inl e
           | Inr ids \<Rightarrow> Inr (new_event_ids a a1 @ ids)))"

fun is_branch :: "tracker_event \<Rightarrow> bool" where
  "is_branch (Branch sim ip_arg predicted actual indirect) = True"
| "is_branch (Tick sim time time_delta) = False"

definition all_records :: "analyzer \<Rightarrow> obs_record list" where
  "all_records a = completed_records a @ map snd (active_records a)"

section \<open>Aggregator\<close>

text \<open>
  \<open>class CoreStateAtBranchEventAnalyzer\<close>. The fields that \<open>__init__\<close> sets to \<open>None\<close>
  are options. \<open>core_analyzers\<close> is a dictionary from core id to analyzer.
\<close>

record aggregator =
  results_folder :: "string option"
  state_patterns_file :: "string option"
  analysis_summary_file :: "string option"
  observation_window :: "int option"
  sampling_period :: "int option"
  total_branches :: int
  core_analyzers :: "(int \<times> analyzer) list"

definition CoreStateAtBranchEventAnalyzer :: aggregator where
  "CoreStateAtBranchEventAnalyzer =
     \<lparr> results_folder = None, state_patterns_file = None, analysis_summary_file = None,
       observation_window = None, sampling_period = None,
       total_branches = 0, core_analyzers = [] \<rparr>"

subsection \<open>Argument parsing in \<open>setup\<close>\<close>

text \<open>\<open>s.split(c)\<close> for a one-character separator.\<close>

fun split_on :: "char \<Rightarrow> string \<Rightarrow> string list" where
  "split_on c [] = [[]]"
| "split_on c (x # xs) =
     (if x = c then [] # split_on c xs
      else (x # hd (split_on c xs)) # tl (split_on c xs))"

text \<open>
  Python's \<open>int(s)\<close> on a string of ASCII characters: surrounding whitespace is
  stripped, one sign is allowed, then decimal digits with single underscores between
  digits; anything else is a ValueError (here \<open>None\<close>). Non-ASCII digits and spaces are
  outside the model.
\<close>

definition is_space :: "char \<Rightarrow> bool" where
  "is_space c \<longleftrightarrow> (of_char c :: nat) \<in> {9, 10, 11, 12, 13, 28, 29, 30, 31, 32}"

definition is_digit :: "char \<Rightarrow> bool" where
  "is_digit c \<longleftrightarrow> 48 \<le> (of_char c :: nat) \<and> (of_char c :: nat) \<le> 57"

definition digit_val :: "char \<Rightarrow> nat" where
  "digit_val c = of_char c - 48"

fun parse_digits :: "nat \<Rightarrow> bool \<Rightarrow> string \<Rightarrow> nat option" where
  "parse_digits acc prev_digit [] = (if prev_digit then Some acc else None)"
| "parse_digits acc prev_digit (c # cs) =
     (if is_digit c then parse_digits (10 * acc + digit_val c) True cs
      else if c = CHR ''_'' \<and> prev_digit then parse_digits acc False cs
      else None)"

definition py_strip :: "string \<Rightarrow> string" where
  "py_strip s = rev (dropWhile is_space (rev (dropWhile is_space s)))"

definition py_int :: "string \<Rightarrow> int option" where
  "py_int s =
     (case py_strip s of
        [] \<Rightarrow> None
      | c # cs \<Rightarrow>
          if c = CHR ''-'' then map_option (\<lambda>n. - int n) (parse_digits 0 False cs)
          else if c = CHR ''+'' then map_option int (parse_digits 0 False cs)
          else map_option int (parse_digits 0 False (c # cs)))"

text \<open>
  \<open>int(args.get(i, None) or dflt)\<close> on \<open>args = dict(enumerate(...))\<close>: a missing or empty
  field gives the default.
\<close>

definition int_arg :: "string list \<Rightarrow> nat \<Rightarrow> int \<Rightarrow> error + int" where
  "int_arg args i dflt =
     (if i < length args \<and> args ! i \<noteq> []
      then (case py_int (args ! i) of None \<Rightarrow> Inl ValueError | Some n \<Rightarrow> Inr n)
      else Inr dflt)"

text \<open>\<open>os.path.join(a, b)\<close> on POSIX paths.\<close>

definition path_join :: "string \<Rightarrow> string \<Rightarrow> string" where
  "path_join a b =
     (if b \<noteq> [] \<and> hd b = CHR ''/'' then b
      else if a = [] \<or> last a = CHR ''/'' then a @ b
      else a @ ''/'' @ b)"

text \<open>
  The method \<open>setup\<close> (named \<open>setup_analyzer\<close> here). The registration of the two callbacks with the simulator and the prints have
  no effect on the aggregator and are left out; an exception of \<open>int\<close> aborts the call.
\<close>

definition setup_analyzer :: "sim_env \<Rightarrow> aggregator \<Rightarrow> string option \<Rightarrow> error + aggregator" where
  "setup_analyzer sim agg args =
     (let args_d = split_on CHR '':'' (case args of None \<Rightarrow> [] | Some s \<Rightarrow> s)
      in case int_arg args_d 0 100 of
           Inl e \<Rightarrow> Inl e
         | Inr window \<Rightarrow>
             (case int_arg args_d 1 1 of
                Inl e \<Rightarrow> Inl e
              | Inr period \<Rightarrow>
                  (let folder = config_output_dir sim;
                       num_cores = config_ncores sim
                   in Inr (agg\<lparr> observation_window := Some window,
                                 sampling_period := Some period,
                                 results_folder := Some folder,
                                 state_patterns_file :=
                                   Some (path_join folder ''core_state_patterns.csv''),
                                 analysis_summary_file :=
                                   Some (path_join folder ''state_pattern_summary.csv''),
                                 core_analyzers :=
                                   foldl (\<lambda>d cid. AList.update cid
                                            (CoreStateAnalyzer cid folder window period) d)
                                         (core_analyzers agg) [0 .. num_cores - 1] \<rparr>))))"

subsection \<open>Hooks\<close>

fun periodic_loop ::
    "sim_env \<Rightarrow> int \<Rightarrow> int \<Rightarrow> (int \<times> analyzer) list \<Rightarrow> error + (int \<times> analyzer) list" where
  "periodic_loop sim time time_delta [] = Inr []"
| "periodic_loop sim time time_delta ((cid, an) # rest) =
     (case collect_state_sample sim an time time_delta of
        Inl e \<Rightarrow> Inl e
      | Inr an1 \<Rightarrow>
          (case periodic_loop sim time time_delta rest of
             Inl e \<Rightarrow> Inl e
           | Inr rest1 \<Rightarrow> Inr ((cid, an1) # rest1)))"

definition hook_periodic :: "sim_env \<Rightarrow> aggregator \<Rightarrow> int \<Rightarrow> int \<Rightarrow> error + aggregator" where
  "hook_periodic sim agg time time_delta =
     (case periodic_loop sim time time_delta (core_analyzers agg) of
        Inl e \<Rightarrow> Inl e
      | Inr cas \<Rightarrow> Inr (agg\<lparr> core_analyzers := cas \<rparr>))"

text \<open>
  \<open>hook_branch_predictor\<close>: the membership test and the lookup that follows it are the
  one \<open>map_of\<close>.
\<close>

definition hook_branch_predictor ::
    "sim_env \<Rightarrow> aggregator \<Rightarrow> int \<Rightarrow> int \<Rightarrow> bool \<Rightarrow> bool \<Rightarrow> bool \<Rightarrow> aggregator" where
  "hook_branch_predictor sim agg cid ip_arg predicted actual indirect =
     (let agg1 = agg\<lparr> total_branches := total_branches agg + 1 \<rparr>
      in case map_of (core_analyzers agg1) cid of
           None \<Rightarrow> agg1
         | Some an \<Rightarrow>
             agg1\<lparr> core_analyzers :=
                     AList.update cid (record_branch_event sim an ip_arg predicted actual indirect)
                       (core_analyzers agg1) \<rparr>)"

definition total_record_count :: "aggregator \<Rightarrow> nat" where
  "total_record_count agg = sum_list (map (\<lambda>(cid, an). length (all_records an)) (core_analyzers agg))"

text \<open>
  A driver for the aggregator: branch events and periodic ticks, each with the simulator
  environment of that moment, delivered in order to the two hooks.
\<close>

datatype event =
    BranchEvent sim_env int int bool bool bool
  | PeriodicTick sim_env int int

fun deliver :: "aggregator \<Rightarrow> event \<Rightarrow> error + aggregator" where
  "deliver agg (BranchEvent sim cid ip_arg predicted actual indirect) =
     Inr (hook_branch_predictor sim agg cid ip_arg predicted actual indirect)"
| "deliver agg (PeriodicTick sim time time_delta) = hook_periodic sim agg time time_delta"

fun run_events :: "aggregator \<Rightarrow> event list \<Rightarrow> error + aggregator" where
  "run_events agg [] = Inr agg"
| "run_events agg (ev # evs) =
     (case deliver agg ev of Inl e \<Rightarrow> Inl e | Inr agg1 \<Rightarrow> run_events agg1 evs)"

subsection \<open>Output at the end of the simulation\<close>

text \<open>Python's \<open>hex\<close> on an integer.\<close>

definition hex_digit :: "nat \<Rightarrow> char" where
  "hex_digit d = ''0123456789abcdef'' ! d"

fun hex_nat :: "nat \<Rightarrow> string" where
  "hex_nat n = (if n < 16 then [hex_digit n] else hex_nat (n div 16) @ [hex_digit (n mod 16)])"

declare hex_nat.simps [simp del]

definition hex :: "int \<Rightarrow> string" where
  "hex i = (if i < 0 then ''-0x'' @ hex_nat (nat (- i)) else ''0x'' @ hex_nat (nat i))"

text \<open>
  The two files are kept as their data rows (the header line is fixed). A row of
  \<open>core_state_patterns.csv\<close> is the seven values handed to the format string; a row of
  \<open>state_pattern_summary.csv\<close> is the five values handed to it, the three quotients as
  exact rationals (the script computes them in floating point and prints two decimals).
\<close>

type_synonym pattern_row = "int \<times> int \<times> int \<times> int \<times> string \<times> bool \<times> int list"
type_synonym summary_row = "string \<times> int \<times> rat \<times> rat \<times> rat"

datatype file_content = PatternsCsv "pattern_row list" | SummaryCsv "summary_row list"

type_synonym filesystem = "string \<Rightarrow> file_content option"

record stats =
  count :: int
  idle_positions :: "int list"
  branch_taken_count :: int

definition idle_positions_of :: "obs_record \<Rightarrow> int list" where
  "idle_positions_of rec =
     (let sts = map snd (states rec)
      in map (\<lambda>(i, state). int i) (filter (\<lambda>(i, state). state = 5) (List.enumerate 0 sts)))"

fun summary_scan :: "obs_record list \<Rightarrow> (string \<times> stats) list \<Rightarrow> (string \<times> stats) list" where
  "summary_scan [] pattern_stats = pattern_stats"
| "summary_scan (rec # recs) pattern_stats =
     (let ip_key = hex (ip rec);
          taken = branch_taken rec;
          idle = idle_positions_of rec
      in if idle \<noteq> [] then
           (case map_of pattern_stats ip_key of
              None \<Rightarrow>
                summary_scan recs
                  (AList.update ip_key
                     \<lparr> count = 1, idle_positions = idle,
                       branch_taken_count = (if taken then 1 else 0) \<rparr> pattern_stats)
            | Some st \<Rightarrow>
                summary_scan recs
                  (AList.update ip_key
                     (st\<lparr> count := count st + 1,
                          idle_positions := idle_positions st @ idle,
                          branch_taken_count :=
                            (if taken then branch_taken_count st + 1 else branch_taken_count st) \<rparr>)
                     pattern_stats))
         else summary_scan recs pattern_stats)"

definition summary_line :: "int option \<Rightarrow> string \<times> stats \<Rightarrow> error + summary_row" where
  "summary_line window entry =
     (let ip_key = fst entry; st = snd entry;
          cnt = count st; idle = idle_positions st
      in if length idle = 0 then Inl ZeroDivisionError
         else
           (let avg_position = of_int (sum_list idle) / of_nat (length idle)
            in case window of
                 None \<Rightarrow> Inl TypeError
               | Some total_samples_per_record \<Rightarrow>
                   if cnt * total_samples_per_record = 0 then Inl ZeroDivisionError
                   else
                     (let idle_percentage =
                            (of_nat (length idle) / of_int (cnt * total_samples_per_record)) * 100
                      in if cnt = 0 then Inl ZeroDivisionError
                         else Inr (ip_key, cnt, avg_position, idle_percentage,
                                   of_int (branch_taken_count st) / of_int cnt))))"

text \<open>
  The loop that writes the summary lines: an exception leaves the lines written so far
  in the file.
\<close>

fun write_summary :: "int option \<Rightarrow> (string \<times> stats) list \<Rightarrow> summary_row list \<times> error option" where
  "write_summary window [] = ([], None)"
| "write_summary window (entry # entries) =
     (case summary_line window entry of
        Inl e \<Rightarrow> ([], Some e)
      | Inr row \<Rightarrow>
          (let (rows, err) = write_summary window entries in (row # rows, err)))"

definition generate_analysis_summary ::
    "aggregator \<Rightarrow> filesystem \<Rightarrow> obs_record list \<Rightarrow> filesystem \<times> error option" where
  "generate_analysis_summary agg fs all_recs =
     (let pattern_stats = summary_scan all_recs []
      in case analysis_summary_file agg of
           None \<Rightarrow> (fs, Some TypeError)
         | Some path \<Rightarrow>
             (let (rows, err) = write_summary (observation_window agg) pattern_stats
              in (fs(path \<mapsto> SummaryCsv rows), err)))"

definition pattern_line :: "obs_record \<Rightarrow> pattern_row" where
  "pattern_line rec =
     (event_id rec, instruction_count rec, start_time rec, core_id rec,
      hex (ip rec), branch_taken rec, map snd (states rec))"

definition all_completed_records :: "aggregator \<Rightarrow> obs_record list" where
  "all_completed_records agg =
     concat (map (\<lambda>(cid, an). completed_records an @ map snd (active_records an))
                 (core_analyzers agg))"

text \<open>
  \<open>hook_sim_end\<close> takes the aggregator and the files on disk and returns both, with the
  exception that ended the call, if any. Opening a file with mode \<open>'w'\<close> replaces it.
\<close>

definition hook_sim_end ::
    "aggregator \<Rightarrow> filesystem \<Rightarrow> aggregator \<times> filesystem \<times> error option" where
  "hook_sim_end agg fs =
     (let recs = all_completed_records agg
      in case state_patterns_file agg of
           None \<Rightarrow> (agg, fs, Some TypeError)
         | Some path \<Rightarrow>
             (let fs1 = fs(path \<mapsto> PatternsCsv (map pattern_line recs));
                  (fs2, err) = generate_analysis_summary agg fs1 recs
              in (agg, fs2, err)))"

section \<open>The summary as the specification describes it\<close>


definition idle_indices :: "obs_record \<Rightarrow> int list" where
  "idle_indices rec =
     map int (filter (\<lambda>i. snd (states rec ! i) = 5) [0 ..< length (states rec)])"










text \<open>
  The invariant of an analyzer: the counter is at least 1, every active record is stored
  under its own \<open>event_id\<close>, and the ids of the completed records followed by the keys of
  the active ones are distinct and are exactly the ids handed out so far.
\<close>

definition wf_analyzer :: "analyzer \<Rightarrow> bool" where
  "wf_analyzer a \<longleftrightarrow>
     1 \<le> next_event_id a \<and>
     list_all (\<lambda>(k, r). event_id r = k) (active_records a) \<and>
     distinct (map event_id (completed_records a) @ map fst (active_records a)) \<and>
     set (map event_id (completed_records a) @ map fst (active_records a)) = {1 ..< next_event_id a}"

section \<open>Example inputs\<close>

text \<open>
  A simulator in which one microsecond is one time unit and every core is IDLE (5), and an
  analyzer of core 0 with window 100 that holds two open records, started at times 0
  and 100.
\<close>

definition demo_sim :: "int \<Rightarrow> sim_env" where
  "demo_sim t =
     \<lparr> stats_time = t, stats_instruction_count = (\<lambda>c. 1000), dvfs_get_core_state = (\<lambda>c. 5),
       Time_US = 1, config_output_dir = ''out'', config_ncores = 1 \<rparr>"

definition demo_record :: "int \<Rightarrow> int \<Rightarrow> obs_record" where
  "demo_record eid t0 =
     \<lparr> event_id = eid, core_id = 0, ip = 4096, branch_taken = True,
       start_time = t0, instruction_count = 1000, states = [] \<rparr>"

definition demo_analyzer :: analyzer where
  "demo_analyzer =
     (CoreStateAnalyzer 0 ''out'' 100 1)
       \<lparr> active_records := [(1, demo_record 1 0), (2, demo_record 2 100)],
         next_event_id := 3 \<rparr>"

text \<open>
  A run of one analyzer in two parts, with the states it passes through: record 1 closes
  on the tick at time 120, record 2 on the tick at time 180.
\<close>

definition demo_events1 :: "tracker_event list" where
  "demo_events1 =
     [Branch (demo_sim 0) 4096 True True False,
      Tick (demo_sim 60) 60 1,
      Branch (demo_sim 70) 8192 False False False,
      Tick (demo_sim 120) 120 1]"

definition demo_events2 :: "tracker_event list" where
  "demo_events2 =
     [Branch (demo_sim 130) 4096 True False False,
      Tick (demo_sim 180) 180 1]"

definition demo_closed :: obs_record where
  "demo_closed = (demo_record 1 0)\<lparr> states := [(60, 5), (120, 5)] \<rparr>"

definition demo_mid :: analyzer where
  "demo_mid =
     (CoreStateAnalyzer 0 ''out'' 100 1)
       \<lparr> active_records :=
           [(2, (demo_record 2 70)\<lparr> ip := 8192, branch_taken := False, states := [(50, 5)] \<rparr>)],
         completed_records := [demo_closed],
         next_event_id := 3 \<rparr>"

definition demo_end :: analyzer where
  "demo_end =
     (CoreStateAnalyzer 0 ''out'' 100 1)
       \<lparr> active_records :=
           [(3, (demo_record 3 130)\<lparr> branch_taken := False, states := [(50, 5)] \<rparr>)],
         completed_records :=
           [demo_closed,
            (demo_record 2 70)\<lparr> ip := 8192, branch_taken := False,
                                  states := [(50, 5), (110, 5)] \<rparr>],
         next_event_id := 4 \<rparr>"

text \<open>
  An aggregator as \<open>setup\<close> leaves it for one core, window 100 and period 1, and the
  same aggregator at the end of the run above.
\<close>

definition demo_agg :: aggregator where
  "demo_agg =
     \<lparr> results_folder = Some ''out'',
       state_patterns_file = Some ''out/core_state_patterns.csv'',
       analysis_summary_file = Some ''out/state_pattern_summary.csv'',
       observation_window = Some 100, sampling_period = Some 1,
       total_branches = 0,
       core_analyzers = [(0, CoreStateAnalyzer 0 ''out'' 100 1)] \<rparr>"


text \<open>
  The run of the specification's example: one core that is always IDLE, a simulator with
  \<open>us\<close> time units per microsecond, one branch event at time 0 and then 150 ticks, one
  microsecond apart. \<open>idle_record n\<close> is the record of that branch event after \<open>n\<close>
  ticks, and \<open>idle_agg\<close> the aggregator of the run with given active and completed
  records.
\<close>

definition idle_sim :: "int \<Rightarrow> string \<Rightarrow> (int \<Rightarrow> int) \<Rightarrow> int \<Rightarrow> sim_env" where
  "idle_sim us dir icount t =
     \<lparr> stats_time = t, stats_instruction_count = icount, dvfs_get_core_state = (\<lambda>c. 5),
       Time_US = us, config_output_dir = dir, config_ncores = 1 \<rparr>"

definition idle_tick :: "int \<Rightarrow> string \<Rightarrow> (int \<Rightarrow> int) \<Rightarrow> nat \<Rightarrow> event" where
  "idle_tick us dir icount k =
     PeriodicTick (idle_sim us dir icount (int k * us)) (int k * us) us"

definition idle_run ::
    "int \<Rightarrow> string \<Rightarrow> (int \<Rightarrow> int) \<Rightarrow> int \<Rightarrow> bool \<Rightarrow> bool \<Rightarrow> bool \<Rightarrow> event list" where
  "idle_run us dir icount ip_arg predicted actual indirect =
     BranchEvent (idle_sim us dir icount 0) 0 ip_arg predicted actual indirect #
     map (idle_tick us dir icount) [1 ..< 151]"

definition idle_record :: "int \<Rightarrow> (int \<Rightarrow> int) \<Rightarrow> int \<Rightarrow> bool \<Rightarrow> nat \<Rightarrow> obs_record" where
  "idle_record us icount ip_arg actual n =
     \<lparr> event_id = 1, core_id = 0, ip = ip_arg, branch_taken = actual, start_time = 0,
       instruction_count = icount 0,
       states = map (\<lambda>k. (int k * us, 5)) [1 ..< Suc n] \<rparr>"

definition idle_agg :: "string \<Rightarrow> (int \<times> obs_record) list \<Rightarrow> obs_record list \<Rightarrow> aggregator" where
  "idle_agg dir open_recs closed_recs =
     \<lparr> results_folder = Some dir,
       state_patterns_file = Some (path_join dir ''core_state_patterns.csv''),
       analysis_summary_file = Some (path_join dir ''state_pattern_summary.csv''),
       observation_window = Some 100, sampling_period = Some 1,
       total_branches = 1,
       core_analyzers =
         [(0, (CoreStateAnalyzer 0 dir 100 1)
                \<lparr> active_records := open_recs, completed_records := closed_recs, next_event_id := 2 \<rparr>)] \<rparr>"

section \<open>Association-list facts\<close>

lemma update_fresh_append:
  "k \<notin> fst ` set al \<Longrightarrow> AList.update k v al = al @ [(k, v)]"
  by (induction al) auto

lemma update_split_entry:
  "k \<notin> fst ` set pre \<Longrightarrow> AList.update k v (pre @ (k, w) # post) = pre @ (k, v) # post"
  by (induction pre) auto

lemma delete_split_entry:
  "k \<notin> fst ` set pre \<Longrightarrow> k \<notin> fst ` set post \<Longrightarrow>
   AList.delete k (pre @ (k, w) # post) = pre @ post"
  by (induction pre) (force simp: AList.delete_eq filter_id_conv)+

lemma map_of_split_entry:
  "k \<notin> fst ` set pre \<Longrightarrow> map_of (pre @ (k, w) # post) k = Some w"
  by (induction pre) auto


section \<open>One tick on one analyzer\<close>

lemma add_sample_frame [simp]:
  "add_sample sim (a\<lparr> active_records := x \<rparr>) = add_sample sim a"
  "add_sample sim (a\<lparr> completed_records := y \<rparr>) = add_sample sim a"
  by (simp_all add: add_sample_def fun_eq_iff)

lemma window_over_frame [simp]:
  "window_over sim (a\<lparr> active_records := x \<rparr>) = window_over sim a"
  "window_over sim (a\<lparr> completed_records := y \<rparr>) = window_over sim a"
  by (simp_all add: window_over_def fun_eq_iff)

lemma sample_loop_split:
  assumes "active_records a = pre @ todo"
      and "distinct (map fst (pre @ todo))"
  shows "sample_loop sim time (dvfs_get_core_state sim (an_core_id a)) (map fst todo) a =
         Inr (a\<lparr> active_records :=
                    pre @ map (\<lambda>(k, r). (k, add_sample sim a time r))
                            (filter (\<lambda>(k, r). \<not> window_over sim a time r) todo),
                  completed_records :=
                    completed_records a @
                    map (\<lambda>(k, r). add_sample sim a time r)
                        (filter (\<lambda>(k, r). window_over sim a time r) todo) \<rparr>)"
  using assms
proof (induction todo arbitrary: pre a)
  case Nil
  then show ?case by simp
next
  case (Cons kr todo)
  obtain k r where kr: "kr = (k, r)" by (cases kr)
  from Cons.prems kr have fresh_pre: "k \<notin> fst ` set pre" and fresh_todo: "k \<notin> fst ` set todo"
    by auto
  have look: "map_of (active_records a) k = Some r"
    unfolding Cons.prems(1) kr by (rule map_of_split_entry [OF fresh_pre])
  let ?r1 = "add_sample sim a time r"
  show ?case
  proof (cases "window_over sim a time r")
    case True
    let ?a2 = "a\<lparr> completed_records := completed_records a @ [?r1],
                    active_records := pre @ todo \<rparr>"
    have step: "sample_loop sim time (dvfs_get_core_state sim (an_core_id a)) (map fst (kr # todo)) a =
                sample_loop sim time (dvfs_get_core_state sim (an_core_id ?a2)) (map fst todo) ?a2"
      using True look Cons.prems(1) kr fresh_pre fresh_todo
      by (simp add: Let_def add_sample_def window_over_def update_split_entry delete_split_entry)
    have d2: "distinct (map fst (pre @ todo))" using Cons.prems(2) by simp
    have ih: "sample_loop sim time (dvfs_get_core_state sim (an_core_id ?a2)) (map fst todo) ?a2 =
         Inr (?a2\<lparr> active_records :=
                    pre @ map (\<lambda>(k, r). (k, add_sample sim ?a2 time r))
                            (filter (\<lambda>(k, r). \<not> window_over sim ?a2 time r) todo),
                  completed_records :=
                    completed_records ?a2 @
                    map (\<lambda>(k, r). add_sample sim ?a2 time r)
                        (filter (\<lambda>(k, r). window_over sim ?a2 time r) todo) \<rparr>)"
      by (rule Cons.IH) (use d2 in simp_all)
    show ?thesis
      unfolding step ih using True kr by simp
  next
    case False
    let ?a2 = "a\<lparr> active_records := (pre @ [(k, ?r1)]) @ todo \<rparr>"
    have step: "sample_loop sim time (dvfs_get_core_state sim (an_core_id a)) (map fst (kr # todo)) a =
                sample_loop sim time (dvfs_get_core_state sim (an_core_id ?a2)) (map fst todo) ?a2"
      using False look Cons.prems(1) kr fresh_pre
      by (simp add: Let_def add_sample_def window_over_def update_split_entry)
    have d2: "distinct (map fst ((pre @ [(k, ?r1)]) @ todo))"
      using Cons.prems(2) kr by auto
    have ih: "sample_loop sim time (dvfs_get_core_state sim (an_core_id ?a2)) (map fst todo) ?a2 =
         Inr (?a2\<lparr> active_records :=
                    (pre @ [(k, ?r1)]) @ map (\<lambda>(k, r). (k, add_sample sim ?a2 time r))
                            (filter (\<lambda>(k, r). \<not> window_over sim ?a2 time r) todo),
                  completed_records :=
                    completed_records ?a2 @
                    map (\<lambda>(k, r). add_sample sim ?a2 time r)
                        (filter (\<lambda>(k, r). window_over sim ?a2 time r) todo) \<rparr>)"
      by (rule Cons.IH) (use d2 in simp_all)
    show ?thesis
      unfolding step ih using False kr by simp
  qed
qed

lemma collect_state_sample_eq:
  assumes "distinct (map fst (active_records a))" and "time_delta \<noteq> 0"
  shows "collect_state_sample sim a time time_delta =
         Inr (a\<lparr> active_records :=
                    map (\<lambda>(k, r). (k, add_sample sim a time r))
                        (filter (\<lambda>(k, r). \<not> window_over sim a time r) (active_records a)),
                  completed_records :=
                    completed_records a @
                    map (\<lambda>(k, r). add_sample sim a time r)
                        (filter (\<lambda>(k, r). window_over sim a time r) (active_records a)) \<rparr>)"
  using sample_loop_split [of a "[]" "active_records a" sim time] assms
  by (simp add: collect_state_sample_def)

lemma periodic_loop_zero: "periodic_loop sim time 0 cas = Inr cas"
  by (induction cas) (auto simp: collect_state_sample_def)

text \<open>
  Claim C1. A tick with a non-zero \<open>time_delta\<close> appends exactly one sample
  \<open>(time - start_time, state)\<close> to every record that is active on the core, and a record
  whose elapsed time exceeds the observation window (in simulator time units) leaves the
  active set for the completed list with that closing sample already in it. The keys of
  the dictionary \<open>active_records\<close> are unique, as in every Python dictionary.
\<close>

theorem tick_samples_every_active_record:
  assumes "distinct (map fst (active_records a))" and "time_delta \<noteq> 0"
  shows "collect_state_sample sim a time time_delta =
         Inr (a\<lparr> active_records :=
                    map (\<lambda>(k, r). (k, add_sample sim a time r))
                        (filter (\<lambda>(k, r). \<not> window_over sim a time r) (active_records a)),
                  completed_records :=
                    completed_records a @
                    map (\<lambda>(k, r). add_sample sim a time r)
                        (filter (\<lambda>(k, r). window_over sim a time r) (active_records a)) \<rparr>)"
  using assms by (rule collect_state_sample_eq)

theorem tick_samples_every_active_record_witness:
  "distinct (map fst (active_records demo_analyzer)) \<and> (1::int) \<noteq> 0 \<and>
   collect_state_sample (demo_sim 150) demo_analyzer 150 1 =
     Inr (demo_analyzer
           \<lparr> active_records := [(2, (demo_record 2 100)\<lparr> states := [(50, 5)] \<rparr>)],
             completed_records := [(demo_record 1 0)\<lparr> states := [(150, 5)] \<rparr>] \<rparr>)"
  using tick_samples_every_active_record [of demo_analyzer 1 "demo_sim 150" 150]
  by (simp add: demo_analyzer_def demo_sim_def demo_record_def CoreStateAnalyzer_def
        add_sample_def window_over_def)

text \<open>
  Claim C6. A tick with \<open>time_delta = 0\<close> is a no-op and not an error: the analyzer is
  returned as it was (no sample is appended, no record is completed), and so is the
  aggregator that forwards such a tick to all its analyzers.
\<close>

theorem zero_delta_tick_is_noop:
  "collect_state_sample sim a time 0 = Inr a \<and> hook_periodic sim agg time 0 = Inr agg"
  by (simp add: collect_state_sample_def hook_periodic_def periodic_loop_zero)

section \<open>Event ids and the life cycle of a record\<close>

lemma keyed_ids:
  "list_all (\<lambda>(k, r). event_id r = k) al \<Longrightarrow> map event_id (map snd al) = map fst al"
  by (induction al) auto

lemma wf_all_ids:
  "wf_analyzer a \<Longrightarrow>
   map event_id (all_records a) = map event_id (completed_records a) @ map fst (active_records a)"
  by (simp add: wf_analyzer_def all_records_def keyed_ids del: map_map)

lemma wf_distinct_keys: "wf_analyzer a \<Longrightarrow> distinct (map fst (active_records a))"
  by (simp add: wf_analyzer_def)

lemma wf_key_bounds:
  assumes "wf_analyzer a" and "k \<in> fst ` set (active_records a)"
  shows "1 \<le> k \<and> k < next_event_id a"
proof -
  have "k \<in> set (map event_id (completed_records a) @ map fst (active_records a))"
    using assms(2) by simp
  then have "k \<in> {1 ..< next_event_id a}"
    using assms(1) unfolding wf_analyzer_def by blast
  then show ?thesis by simp
qed

lemma wf_init: "wf_analyzer (CoreStateAnalyzer cid folder window period)"
  by (simp add: wf_analyzer_def CoreStateAnalyzer_def)

lemma record_branch_event_eq:
  assumes "wf_analyzer a"
  shows "record_branch_event sim a ip_arg predicted actual indirect =
         a\<lparr> next_event_id := next_event_id a + 1,
            active_records := active_records a @
              [(next_event_id a,
                \<lparr> event_id = next_event_id a, core_id = an_core_id a, ip = ip_arg,
                  branch_taken = actual, start_time = stats_time sim,
                  instruction_count = stats_instruction_count sim (an_core_id a),
                  states = [] \<rparr>)] \<rparr>"
proof -
  have "next_event_id a \<notin> fst ` set (active_records a)"
    using wf_key_bounds [OF assms, of "next_event_id a"] by auto
  then show ?thesis
    by (simp add: record_branch_event_def Let_def update_fresh_append)
qed

lemma wf_branch:
  assumes "wf_analyzer a"
  shows "wf_analyzer (record_branch_event sim a ip_arg predicted actual indirect)"
proof -
  let ?n = "next_event_id a"
  have s: "set (map event_id (completed_records a) @ map fst (active_records a)) = {1 ..< ?n}"
    and d: "distinct (map event_id (completed_records a) @ map fst (active_records a))"
    and k: "list_all (\<lambda>(k, r). event_id r = k) (active_records a)"
    using assms by (simp_all add: wf_analyzer_def)
  have fresh: "?n \<notin> set (map event_id (completed_records a) @ map fst (active_records a))"
    unfolding s by simp
  have one: "1 \<le> ?n" using assms by (simp add: wf_analyzer_def)
  have s1: "insert ?n {1 ..< ?n} = {1 ..< ?n + 1}" using one by auto
  show ?thesis
    unfolding record_branch_event_eq [OF assms] wf_analyzer_def
    using k d fresh s s1 one by auto
qed

lemma event_id_add_sample [simp]: "event_id (add_sample sim a time r) = event_id r"
  by (simp add: add_sample_def)

lemma distinct_map_partition:
  "distinct (map f xs) \<Longrightarrow> distinct (map f (filter P xs) @ map f (filter (\<lambda>x. \<not> P x) xs))"
  by (induction xs) auto

lemma wf_tick:
  assumes "wf_analyzer a"
  shows "\<exists>a1. collect_state_sample sim a time time_delta = Inr a1 \<and> wf_analyzer a1 \<and>
              next_event_id a1 = next_event_id a \<and>
              set (map fst (active_records a1)) \<subseteq> set (map fst (active_records a)) \<and>
              (\<exists>cs. completed_records a1 = completed_records a @ cs)"
proof (cases "time_delta = 0")
  case True
  then show ?thesis using assms by (simp add: collect_state_sample_def)
next
  case False
  let ?P = "\<lambda>(k, r). window_over sim a time r"
  let ?N = "\<lambda>(k, r). \<not> window_over sim a time r"
  let ?act = "map (\<lambda>(k, r). (k, add_sample sim a time r)) (filter ?N (active_records a))"
  let ?cs = "map (\<lambda>(k, r). add_sample sim a time r) (filter ?P (active_records a))"
  let ?a1 = "a\<lparr> active_records := ?act, completed_records := completed_records a @ ?cs \<rparr>"
  have eq: "collect_state_sample sim a time time_delta = Inr ?a1"
    using collect_state_sample_eq [OF wf_distinct_keys [OF assms] False] .
  have keyed: "list_all (\<lambda>(k, r). event_id r = k) (active_records a)"
    and one: "1 \<le> next_event_id a"
    and d0: "distinct (map event_id (completed_records a) @ map fst (active_records a))"
    and s0: "set (map event_id (completed_records a) @ map fst (active_records a)) =
             {1 ..< next_event_id a}"
    using assms by (simp_all add: wf_analyzer_def)
  have not_P: "?N = (\<lambda>x. \<not> ?P x)" by auto
  have keys_act: "map fst ?act = map fst (filter (\<lambda>x. \<not> ?P x) (active_records a))"
    unfolding not_P by (simp add: case_prod_beta o_def)
  have ids_cs: "map event_id ?cs = map fst (filter ?P (active_records a))"
    using keyed by (induction "active_records a") (auto simp: list_all_iff)
  have dpart: "distinct (map fst (filter ?P (active_records a)) @
                         map fst (filter (\<lambda>x. \<not> ?P x) (active_records a)))"
    using d0 by (intro distinct_map_partition) simp
  have spart: "set (map fst (filter ?P (active_records a))) \<union>
               set (map fst (filter (\<lambda>x. \<not> ?P x) (active_records a))) =
               set (map fst (active_records a))"
    by auto
  have d1: "distinct (map event_id (completed_records ?a1) @ map fst (active_records ?a1))"
    using d0 dpart spart by (simp add: keys_act ids_cs del: map_map set_map)
  have s1: "set (map event_id (completed_records ?a1) @ map fst (active_records ?a1)) =
            {1 ..< next_event_id a}"
    using s0 spart by (simp add: keys_act ids_cs Un_assoc del: map_map set_map)
  have k1: "list_all (\<lambda>(k, r). event_id r = k) ?act"
    using keyed by (auto simp: list_all_iff)
  have wf1: "wf_analyzer ?a1"
    unfolding wf_analyzer_def using k1 d1 s1 one by simp
  have sub: "set (map fst ?act) \<subseteq> set (map fst (active_records a))" by force
  show ?thesis
    using eq wf1 sub by (intro exI [of _ ?a1]) auto
qed

lemma new_event_ids_branch:
  assumes "wf_analyzer a"
  shows "new_event_ids a (record_branch_event sim a ip_arg predicted actual indirect) =
         [next_event_id a]"
proof -
  have "next_event_id a \<notin> fst ` set (active_records a)"
    using wf_key_bounds [OF assms, of "next_event_id a"] by auto
  then show ?thesis
    unfolding record_branch_event_eq [OF assms] new_event_ids_def by simp
qed

lemma new_event_ids_subset:
  "set (map fst (active_records a1)) \<subseteq> set (map fst (active_records a)) \<Longrightarrow>
   new_event_ids a a1 = []"
  unfolding new_event_ids_def by (auto simp: filter_empty_conv)

lemma tracker_run_wf:
  assumes "wf_analyzer a"
  shows "\<exists>a1. tracker_run a evs = Inr a1 \<and> wf_analyzer a1 \<and>
              next_event_id a1 = next_event_id a + int (length (filter is_branch evs)) \<and>
              tracker_trace a evs =
                Inr [next_event_id a .. next_event_id a + int (length (filter is_branch evs)) - 1] \<and>
              (\<exists>cs. completed_records a1 = completed_records a @ cs)"
  using assms
proof (induction evs arbitrary: a)
  case Nil
  then show ?case by simp
next
  case (Cons ev evs)
  show ?case
  proof (cases ev)
    case (Branch sim ip_arg predicted actual indirect)
    let ?a1 = "record_branch_event sim a ip_arg predicted actual indirect"
    have wf1: "wf_analyzer ?a1" using Cons.prems by (rule wf_branch)
    have n1: "next_event_id ?a1 = next_event_id a + 1"
      and c1: "completed_records ?a1 = completed_records a"
      unfolding record_branch_event_eq [OF Cons.prems] by simp_all
    from Cons.IH [OF wf1] obtain a2 cs where
      run: "tracker_run ?a1 evs = Inr a2" and wf2: "wf_analyzer a2"
      and n2: "next_event_id a2 = next_event_id ?a1 + int (length (filter is_branch evs))"
      and tr: "tracker_trace ?a1 evs =
                Inr [next_event_id ?a1 .. next_event_id ?a1 + int (length (filter is_branch evs)) - 1]"
      and c2: "completed_records a2 = completed_records ?a1 @ cs"
      by blast
    have up: "[next_event_id a .. next_event_id a + int (length (filter is_branch (ev # evs))) - 1] =
              next_event_id a #
              [next_event_id a + 1 .. next_event_id a + 1 + int (length (filter is_branch evs)) - 1]"
      using Branch by (simp add: upto_rec1)
    show ?thesis
      using Branch run wf2 n2 tr c2 n1 c1 new_event_ids_branch [OF Cons.prems] up
      by (intro exI [of _ a2]) simp
  next
    case (Tick sim time time_delta)
    from wf_tick [OF Cons.prems, of sim time time_delta] obtain a1 cs1 where
      st: "collect_state_sample sim a time time_delta = Inr a1" and wf1: "wf_analyzer a1"
      and n1: "next_event_id a1 = next_event_id a"
      and sub: "set (map fst (active_records a1)) \<subseteq> set (map fst (active_records a))"
      and c1: "completed_records a1 = completed_records a @ cs1"
      by blast
    from Cons.IH [OF wf1] obtain a2 cs where
      run: "tracker_run a1 evs = Inr a2" and wf2: "wf_analyzer a2"
      and n2: "next_event_id a2 = next_event_id a1 + int (length (filter is_branch evs))"
      and tr: "tracker_trace a1 evs =
                Inr [next_event_id a1 .. next_event_id a1 + int (length (filter is_branch evs)) - 1]"
      and c2: "completed_records a2 = completed_records a1 @ cs"
      by blast
    show ?thesis
      using Tick st run wf2 n2 tr c2 n1 c1 new_event_ids_subset [OF sub]
      by (intro exI [of _ a2]) simp
  qed
qed

text \<open>
  Claim C3. Whatever branch events and ticks one analyzer receives after its creation,
  the event ids handed out are exactly 1, 2, ..., N in delivery order, N being the number
  of branch events: the counter ends at N + 1, and the records held at the end (completed
  or active) carry each id from 1 to N exactly once, so no id is reused after its record
  completes. No call fails.
\<close>

theorem event_ids_count_up_from_one:
  "\<exists>a. tracker_run (CoreStateAnalyzer cid folder window period) evs = Inr a \<and>
       tracker_trace (CoreStateAnalyzer cid folder window period) evs =
         Inr [1 .. int (length (filter is_branch evs))] \<and>
       next_event_id a = 1 + int (length (filter is_branch evs)) \<and>
       distinct (map event_id (all_records a)) \<and>
       set (map event_id (all_records a)) = {1 .. int (length (filter is_branch evs))}"
proof -
  let ?a0 = "CoreStateAnalyzer cid folder window period"
  let ?n = "int (length (filter is_branch evs))"
  have n0: "next_event_id ?a0 = 1" by (simp add: CoreStateAnalyzer_def)
  from tracker_run_wf [OF wf_init, of cid folder window period evs] obtain a where
    run: "tracker_run ?a0 evs = Inr a" and wf: "wf_analyzer a"
    and n: "next_event_id a = next_event_id ?a0 + ?n"
    and tr: "tracker_trace ?a0 evs = Inr [next_event_id ?a0 .. next_event_id ?a0 + ?n - 1]"
    by blast
  have d: "distinct (map event_id (all_records a))"
    unfolding wf_all_ids [OF wf] using wf by (simp add: wf_analyzer_def)
  have s: "set (map event_id (all_records a)) = {1 ..< next_event_id a}"
    unfolding wf_all_ids [OF wf] using wf by (simp add: wf_analyzer_def)
  have "{1 ..< 1 + ?n} = {1 .. ?n}" by auto
  then show ?thesis
    using run tr n d s unfolding n0 by (intro exI [of _ a]) simp
qed

lemma tracker_run_reach:
  assumes "wf_analyzer a" and "tracker_run a evs = Inr a1"
  shows "wf_analyzer a1 \<and> (\<exists>cs. completed_records a1 = completed_records a @ cs)"
  using tracker_run_wf [OF assms(1), of evs] assms(2) by auto

text \<open>
  Claim C4. In every state an analyzer reaches, each id handed out so far belongs to
  exactly one of the active set and the completed list, and no two records share an id.
  A record that is in the completed list stays there unchanged under every later
  sequence of events: it gets no further sample and its id never returns to the active
  set.
\<close>

theorem completed_record_never_reopens:
  assumes "tracker_run (CoreStateAnalyzer cid folder window period) evs1 = Inr a"
      and "tracker_run a evs2 = Inr a2"
  shows "(\<forall>k \<in> {1 ..< next_event_id a}.
            (k \<in> fst ` set (active_records a)) \<noteq> (k \<in> event_id ` set (completed_records a))) \<and>
         list_all (\<lambda>(k, r). event_id r = k) (active_records a) \<and>
         distinct (map event_id (all_records a)) \<and>
         (\<forall>r \<in> set (completed_records a).
            r \<in> set (completed_records a2) \<and>
            event_id r \<notin> fst ` set (active_records a2) \<and>
            (\<forall>r2 \<in> set (all_records a2). event_id r2 = event_id r \<longrightarrow> r2 = r))"
proof -
  have wf: "wf_analyzer a"
    using tracker_run_reach [OF wf_init assms(1)] by simp
  from tracker_run_reach [OF wf assms(2)] obtain cs where
    wf2: "wf_analyzer a2" and c2: "completed_records a2 = completed_records a @ cs"
    by blast
  have d: "distinct (map event_id (completed_records a) @ map fst (active_records a))"
    and s: "set (map event_id (completed_records a) @ map fst (active_records a)) =
            {1 ..< next_event_id a}"
    and keyed: "list_all (\<lambda>(k, r). event_id r = k) (active_records a)"
    using wf by (simp_all add: wf_analyzer_def)
  have part: "\<forall>k \<in> {1 ..< next_event_id a}.
      (k \<in> fst ` set (active_records a)) \<noteq> (k \<in> event_id ` set (completed_records a))"
  proof
    fix k assume "k \<in> {1 ..< next_event_id a}"
    then have "k \<in> set (map event_id (completed_records a)) \<union> set (map fst (active_records a))"
      using s by simp
    moreover have "set (map event_id (completed_records a)) \<inter> set (map fst (active_records a)) = {}"
      using d by simp
    ultimately show "(k \<in> fst ` set (active_records a)) \<noteq> (k \<in> event_id ` set (completed_records a))"
      by auto
  qed
  have dall: "distinct (map event_id (all_records a))"
    unfolding wf_all_ids [OF wf] by (rule d)
  have d2: "distinct (map event_id (completed_records a2) @ map fst (active_records a2))"
    using wf2 by (simp add: wf_analyzer_def)
  have dall2: "distinct (map event_id (all_records a2))"
    unfolding wf_all_ids [OF wf2] by (rule d2)
  have closed: "\<forall>r \<in> set (completed_records a).
            r \<in> set (completed_records a2) \<and>
            event_id r \<notin> fst ` set (active_records a2) \<and>
            (\<forall>r2 \<in> set (all_records a2). event_id r2 = event_id r \<longrightarrow> r2 = r)"
  proof
    fix r assume r: "r \<in> set (completed_records a)"
    then have in2: "r \<in> set (completed_records a2)" using c2 by simp
    then have "event_id r \<in> set (map event_id (completed_records a2))" by simp
    then have notact: "event_id r \<notin> fst ` set (active_records a2)"
      using d2 by auto
    have inall: "r \<in> set (all_records a2)" using in2 by (simp add: all_records_def)
    have "inj_on event_id (set (all_records a2))"
      using dall2 by (simp add: distinct_map)
    then have "\<forall>r2 \<in> set (all_records a2). event_id r2 = event_id r \<longrightarrow> r2 = r"
      using inall by (auto dest: inj_onD)
    then show "r \<in> set (completed_records a2) \<and>
            event_id r \<notin> fst ` set (active_records a2) \<and>
            (\<forall>r2 \<in> set (all_records a2). event_id r2 = event_id r \<longrightarrow> r2 = r)"
      using in2 notact by blast
  qed
  show ?thesis using part keyed dall closed by blast
qed

theorem completed_record_never_reopens_witness:
  "tracker_run (CoreStateAnalyzer 0 ''out'' 100 1) demo_events1 = Inr demo_mid \<and>
   tracker_run demo_mid demo_events2 = Inr demo_end \<and>
   demo_closed \<in> set (completed_records demo_mid) \<and>
   demo_closed \<in> set (completed_records demo_end) \<and>
   event_id demo_closed \<notin> fst ` set (active_records demo_end) \<and>
   distinct (map event_id (all_records demo_mid))"
proof -
  have h1: "tracker_run (CoreStateAnalyzer 0 ''out'' 100 1) demo_events1 = Inr demo_mid"
    by (simp add: demo_events1_def demo_mid_def demo_closed_def demo_record_def demo_sim_def
          CoreStateAnalyzer_def record_branch_event_def collect_state_sample_def)
  have h2: "tracker_run demo_mid demo_events2 = Inr demo_end"
    by (simp add: demo_events2_def demo_mid_def demo_end_def demo_closed_def demo_record_def
          demo_sim_def CoreStateAnalyzer_def record_branch_event_def collect_state_sample_def)
  have h3: "demo_closed \<in> set (completed_records demo_mid)"
    by (simp add: demo_mid_def)
  show ?thesis
    using completed_record_never_reopens [OF h1 h2] h1 h2 h3 by blast
qed

section \<open>Branch events and the end of the run\<close>

lemma map_of_None_iff_notin: "map_of al k = None \<longleftrightarrow> k \<notin> fst ` set al"
  by (simp add: map_of_eq_None_iff)

text \<open>
  Claim C7. A branch event whose \<open>core_id\<close> is not a key of \<open>core_analyzers\<close> only
  increments \<open>total_branches\<close>: no record is created (the total number of records is
  unchanged), every analyzer is left as it was, and the call returns normally. For a
  known \<open>core_id\<close> the counter is incremented as well and the event is passed to
  \<open>record_branch_event\<close> of that core's analyzer.
\<close>

theorem branch_on_unknown_core_is_dropped:
  "(cid \<notin> fst ` set (core_analyzers agg) \<longrightarrow>
      hook_branch_predictor sim agg cid ip_arg predicted actual indirect =
        agg\<lparr> total_branches := total_branches agg + 1 \<rparr> \<and>
      core_analyzers (hook_branch_predictor sim agg cid ip_arg predicted actual indirect) =
        core_analyzers agg \<and>
      total_record_count (hook_branch_predictor sim agg cid ip_arg predicted actual indirect) =
        total_record_count agg) \<and>
   (\<forall>an. map_of (core_analyzers agg) cid = Some an \<longrightarrow>
      hook_branch_predictor sim agg cid ip_arg predicted actual indirect =
        agg\<lparr> total_branches := total_branches agg + 1,
              core_analyzers :=
                AList.update cid (record_branch_event sim an ip_arg predicted actual indirect)
                  (core_analyzers agg) \<rparr>)"
proof -
  have unknown: "cid \<notin> fst ` set (core_analyzers agg) \<Longrightarrow>
      hook_branch_predictor sim agg cid ip_arg predicted actual indirect =
        agg\<lparr> total_branches := total_branches agg + 1 \<rparr>"
    by (simp add: hook_branch_predictor_def Let_def map_of_None_iff_notin [symmetric])
  have known: "\<And>an. map_of (core_analyzers agg) cid = Some an \<Longrightarrow>
      hook_branch_predictor sim agg cid ip_arg predicted actual indirect =
        agg\<lparr> total_branches := total_branches agg + 1,
              core_analyzers :=
                AList.update cid (record_branch_event sim an ip_arg predicted actual indirect)
                  (core_analyzers agg) \<rparr>"
    by (simp add: hook_branch_predictor_def Let_def)
  show ?thesis
    using unknown known by (simp add: total_record_count_def)
qed

theorem branch_on_unknown_core_is_dropped_witness:
  "7 \<notin> fst ` set (core_analyzers demo_agg) \<and>
   hook_branch_predictor (demo_sim 0) demo_agg 7 4096 True True False =
     demo_agg\<lparr> total_branches := 1 \<rparr> \<and>
   total_record_count (hook_branch_predictor (demo_sim 0) demo_agg 7 4096 True True False) = 0 \<and>
   map_of (core_analyzers demo_agg) 0 = Some (CoreStateAnalyzer 0 ''out'' 100 1) \<and>
   hook_branch_predictor (demo_sim 0) demo_agg 0 4096 True True False =
     demo_agg\<lparr> total_branches := 1,
                core_analyzers :=
                  [(0, (CoreStateAnalyzer 0 ''out'' 100 1)
                         \<lparr> active_records := [(1, demo_record 1 0)], next_event_id := 2 \<rparr>)] \<rparr>"
  using branch_on_unknown_core_is_dropped [of 7 demo_agg "demo_sim 0" 4096 True True False]
        branch_on_unknown_core_is_dropped [of 0 demo_agg "demo_sim 0" 4096 True True False]
  by (simp add: demo_agg_def demo_sim_def demo_record_def CoreStateAnalyzer_def
        record_branch_event_def total_record_count_def all_records_def)

text \<open>
  Claim C9. \<open>hook_sim_end\<close> leaves the aggregator and all its analyzers unchanged, and a
  second call right after the first one ends the same way and leaves the same two files:
  the records file and the summary file are rewritten with identical contents.
\<close>

theorem finalize_twice_same_output:
  "(case hook_sim_end agg fs of
      (agg1, fs1, err) \<Rightarrow> agg1 = agg \<and> hook_sim_end agg1 fs1 = (agg1, fs1, err))"
  by (auto simp: hook_sim_end_def generate_analysis_summary_def Let_def fun_upd_twist
           split: option.splits prod.splits)

section \<open>Keys of the summary: \<open>hex\<close> is injective\<close>





section \<open>The summary\<close>

lemma enumerate_idle:
  "map (\<lambda>(i, state). int i) (filter (\<lambda>(i, state). state = (5::int)) (List.enumerate n xs)) =
   map int (filter (\<lambda>i. xs ! (i - n) = 5) [n ..< n + length xs])"
proof (induction xs arbitrary: n)
  case Nil
  then show ?case by simp
next
  case (Cons x xs)
  let ?R = "[Suc n ..< Suc n + length xs]"
  have cong: "filter (\<lambda>i. (x # xs) ! (i - n) = 5) ?R = filter (\<lambda>i. xs ! (i - Suc n) = 5) ?R"
    by (rule filter_cong) (auto simp: nth_Cons' Suc_diff_le)
  have up: "[n ..< n + length (x # xs)] = n # ?R"
    by (simp add: upt_conv_Cons del: upt_Suc)
  have "map (\<lambda>(i, state). int i)
          (filter (\<lambda>(i, state). state = (5::int)) (List.enumerate n (x # xs))) =
        (if x = 5 then [int n] else []) @
        map (\<lambda>(i, state). int i)
          (filter (\<lambda>(i, state). state = (5::int)) (List.enumerate (Suc n) xs))"
    by simp
  also have "\<dots> = (if x = 5 then [int n] else []) @
                   map int (filter (\<lambda>i. xs ! (i - Suc n) = 5) ?R)"
    by (simp only: Cons.IH [of "Suc n"])
  also have "\<dots> = (if x = 5 then [int n] else []) @
                   map int (filter (\<lambda>i. (x # xs) ! (i - n) = 5) ?R)"
    by (simp only: cong)
  also have "\<dots> = map int (filter (\<lambda>i. (x # xs) ! (i - n) = 5) (n # ?R))"
    by (simp del: upt_Suc)
  finally show ?case unfolding up .
qed

lemma idle_positions_of_eq: "idle_positions_of rec = idle_indices rec"
proof -
  have "filter (\<lambda>i. map snd (states rec) ! i = 5) [0 ..< length (states rec)] =
        filter (\<lambda>i. snd (states rec ! i) = 5) [0 ..< length (states rec)]"
    by (rule filter_cong) auto
  then show ?thesis
    using enumerate_idle [of 0 "map snd (states rec)"]
    by (simp add: idle_positions_of_def idle_indices_def Let_def)
qed



















lemma hex_4096: "hex 4096 = ''0x1000''"
  by (simp add: hex_def hex_nat.simps hex_digit_def)





section \<open>Configuration\<close>







lemma py_int_1: "py_int ''1'' = Some 1"
  by (simp add: py_int_def py_strip_def is_space_def is_digit_def digit_val_def)




section \<open>The example run of the specification\<close>

lemma run_events_append:
  "run_events agg (xs @ ys) =
     (case run_events agg xs of Inl e \<Rightarrow> Inl e | Inr agg1 \<Rightarrow> run_events agg1 ys)"
  by (induction xs arbitrary: agg) (auto split: sum.splits)

lemma py_int_100: "py_int ''100'' = Some 100"
  by (simp add: py_int_def py_strip_def is_space_def is_digit_def digit_val_def)

lemma idle_setup:
  "setup_analyzer (idle_sim us dir icount 0) CoreStateAtBranchEventAnalyzer (Some ''100:1'') =
   Inr ((idle_agg dir [] [])\<lparr> total_branches := 0,
          core_analyzers := [(0, CoreStateAnalyzer 0 dir 100 1)] \<rparr>)"
  by (simp add: setup_analyzer_def int_arg_def py_int_100 py_int_1 Let_def idle_sim_def
        idle_agg_def CoreStateAtBranchEventAnalyzer_def)

lemma idle_branch:
  "hook_branch_predictor (idle_sim us dir icount 0)
     ((idle_agg dir [] [])\<lparr> total_branches := 0,
          core_analyzers := [(0, CoreStateAnalyzer 0 dir 100 1)] \<rparr>)
     0 ip_arg predicted actual indirect =
   idle_agg dir [(1, idle_record us icount ip_arg actual 0)] []"
  by (simp add: hook_branch_predictor_def record_branch_event_def idle_agg_def idle_record_def
        idle_sim_def CoreStateAnalyzer_def Let_def)

lemma idle_tick_open:
  assumes "0 < us" and "Suc n \<le> 100"
  shows "deliver (idle_agg dir [(1, idle_record us icount ip_arg actual n)] [])
           (idle_tick us dir icount (Suc n)) =
         Inr (idle_agg dir [(1, idle_record us icount ip_arg actual (Suc n))] [])"
proof -
  have "\<not> 100 * us < (1 + int n) * us"
    using assms by (simp add: mult_less_cancel_right)
  then show ?thesis
    by (simp add: idle_tick_def hook_periodic_def collect_state_sample_def idle_agg_def
          idle_record_def idle_sim_def CoreStateAnalyzer_def Let_def assms(1) less_imp_neq [OF assms(1), symmetric])
qed

lemma idle_tick_close:
  assumes "0 < us" and "100 \<le> n"
  shows "deliver (idle_agg dir [(1, idle_record us icount ip_arg actual n)] [])
           (idle_tick us dir icount (Suc n)) =
         Inr (idle_agg dir [] [idle_record us icount ip_arg actual (Suc n)])"
proof -
  have "100 * us < (1 + int n) * us"
    using assms by (simp add: mult_less_cancel_right)
  then show ?thesis
    by (simp add: idle_tick_def hook_periodic_def collect_state_sample_def idle_agg_def
          idle_record_def idle_sim_def CoreStateAnalyzer_def Let_def
          less_imp_neq [OF assms(1), symmetric])
qed

lemma idle_tick_closed:
  assumes "0 < us"
  shows "deliver (idle_agg dir [] closed_recs) (idle_tick us dir icount k) =
         Inr (idle_agg dir [] closed_recs)"
  by (simp add: idle_tick_def hook_periodic_def collect_state_sample_def idle_agg_def
        idle_sim_def CoreStateAnalyzer_def Let_def)

lemma idle_ticks_open:
  assumes "0 < us" and "n \<le> 100"
  shows "run_events (idle_agg dir [(1, idle_record us icount ip_arg actual 0)] [])
           (map (idle_tick us dir icount) [1 ..< Suc n]) =
         Inr (idle_agg dir [(1, idle_record us icount ip_arg actual n)] [])"
  using assms(2)
proof (induction n)
  case 0
  then show ?case by simp
next
  case (Suc n)
  then have le: "Suc n \<le> 100" and ih:
    "run_events (idle_agg dir [(1, idle_record us icount ip_arg actual 0)] [])
       (map (idle_tick us dir icount) [1 ..< Suc n]) =
     Inr (idle_agg dir [(1, idle_record us icount ip_arg actual n)] [])"
    by simp_all
  have "[1 ..< Suc (Suc n)] = [1 ..< Suc n] @ [Suc n]" by simp
  then show ?case
    using ih idle_tick_open [OF assms(1) le, of dir icount ip_arg actual]
    by (simp add: run_events_append del: upt_Suc)
qed

lemma idle_ticks_closed:
  assumes "0 < us"
  shows "run_events (idle_agg dir [] closed_recs) (map (idle_tick us dir icount) ks) =
         Inr (idle_agg dir [] closed_recs)"
  by (induction ks) (simp_all add: idle_tick_closed [OF assms])

lemma idle_run_result:
  assumes "0 < us"
  shows "run_events ((idle_agg dir [] [])\<lparr> total_branches := 0,
            core_analyzers := [(0, CoreStateAnalyzer 0 dir 100 1)] \<rparr>)
           (idle_run us dir icount ip_arg predicted actual indirect) =
         Inr (idle_agg dir [] [idle_record us icount ip_arg actual (Suc 100)])"
proof -
  have split: "[1 ..< 151] = [1 ..< Suc 100] @ [Suc 100] @ [102 ..< 151]"
    by (simp add: upt_rec)
  show ?thesis
    unfolding idle_run_def split
    using idle_ticks_open [OF assms, of 100 dir icount ip_arg actual]
          idle_tick_close [OF assms, of 100 dir icount ip_arg actual]
          idle_ticks_closed [OF assms, of dir "[idle_record us icount ip_arg actual (Suc 100)]" icount "[102 ..< 151]"]
    by (simp add: idle_branch run_events_append del: upt_Suc)
qed

lemma sum_upt_twice: "2 * sum_list (map int [0 ..< n]) = int n * (int n - 1)"
  by (induction n) (simp_all add: algebra_simps)

lemma sum_upt_101: "sum_list (map int [0 ..< 101]) = 5050"
  using sum_upt_twice [of 101] by simp

lemma idle_record_states:
  "map snd (states (idle_record us icount ip_arg actual n)) = replicate n 5"
  by (simp add: idle_record_def o_def map_replicate_const del: upt_Suc)

lemma idle_record_positions:
  "idle_positions_of (idle_record us icount ip_arg actual n) = map int [0 ..< n]"
proof -
  have "filter (\<lambda>i. snd (states (idle_record us icount ip_arg actual n) ! i) = 5)
          [0 ..< length (states (idle_record us icount ip_arg actual n))] = [0 ..< n]"
    by (simp add: idle_record_def filter_id_conv del: upt_Suc)
  then show ?thesis
    by (simp add: idle_positions_of_eq idle_indices_def)
qed

lemma idle_summary_scan:
  "summary_scan [idle_record us icount ip_arg actual 101] [] =
   [(hex ip_arg, \<lparr> count = 1, idle_positions = map int [0 ..< 101],
                   branch_taken_count = (if actual then 1 else 0) \<rparr>)]"
proof -
  have "map int [0 ..< 101] \<noteq> []" by (simp del: upt_Suc)
  then show ?thesis
    by (simp add: idle_record_positions Let_def del: upt_Suc) (simp add: idle_record_def)
qed

lemma idle_summary_line:
  "summary_line (Some 100)
     (k, \<lparr> count = 1, idle_positions = map int [0 ..< 101], branch_taken_count = b \<rparr>) =
   Inr (k, 1, 50, 101, of_int b)"
  by (simp add: summary_line_def Let_def sum_upt_101 del: upt_Suc)

lemma idle_write_summary:
  "write_summary (Some 100)
     [(k, \<lparr> count = 1, idle_positions = map int [0 ..< 101], branch_taken_count = b \<rparr>)] =
   ([(k, 1, 50, 101, of_int b)], None)"
  by (simp add: idle_summary_line del: upt_Suc)

text \<open>
  Claim C5. With the arguments \<open>100:1\<close>, one core that is always IDLE, one branch event at
  time 0 and 150 ticks one microsecond apart, the run leaves a single record with exactly
  101 samples, the last one at 101 microseconds; the records file has that one line with
  101 states 5, and the summary file has one line for the branch address with count 1,
  average idle position 50, idle time percent 101 and branch taken ratio 1 or 0 according
  to \<open>branch_taken\<close>.
\<close>

theorem idle_run_gives_101_samples:
  assumes "0 < us"
  shows "\<exists>agg0 agg1.
           setup_analyzer (idle_sim us dir icount 0) CoreStateAtBranchEventAnalyzer
             (Some ''100:1'') = Inr agg0 \<and>
           run_events agg0 (idle_run us dir icount ip_arg predicted actual indirect) = Inr agg1 \<and>
           all_completed_records agg1 = [idle_record us icount ip_arg actual 101] \<and>
           length (states (idle_record us icount ip_arg actual 101)) = 101 \<and>
           last (states (idle_record us icount ip_arg actual 101)) = (101 * us, 5) \<and>
           hook_sim_end agg1 fs =
             (agg1,
              (fs(path_join dir ''core_state_patterns.csv'' \<mapsto>
                    PatternsCsv [(1, icount 0, 0, 0, hex ip_arg, actual, replicate 101 5)]))
                 (path_join dir ''state_pattern_summary.csv'' \<mapsto>
                    SummaryCsv [(hex ip_arg, 1, 50, 101, if actual then 1 else 0)]),
              None)"
proof -
  let ?agg0 = "(idle_agg dir [] [])\<lparr> total_branches := 0,
                  core_analyzers := [(0, CoreStateAnalyzer 0 dir 100 1)] \<rparr>"
  let ?rec = "idle_record us icount ip_arg actual 101"
  let ?agg1 = "idle_agg dir [] [?rec]"
  have s: "setup_analyzer (idle_sim us dir icount 0) CoreStateAtBranchEventAnalyzer
             (Some ''100:1'') = Inr ?agg0"
    by (rule idle_setup)
  have r: "run_events ?agg0 (idle_run us dir icount ip_arg predicted actual indirect) = Inr ?agg1"
    using idle_run_result [OF assms, of dir icount ip_arg predicted actual indirect] by simp
  have recs: "all_completed_records ?agg1 = [?rec]"
    by (simp add: all_completed_records_def idle_agg_def)
  have len: "length (states ?rec) = 101"
    by (simp add: idle_record_def del: upt_Suc)
  have lst: "last (states ?rec) = (101 * us, 5)"
    by (simp add: idle_record_def last_map last_upt del: upt_Suc)
  have line: "pattern_line ?rec = (1, icount 0, 0, 0, hex ip_arg, actual, replicate 101 5)"
    unfolding pattern_line_def idle_record_states by (simp add: idle_record_def)
  have ow: "observation_window ?agg1 = Some 100"
    and pf: "state_patterns_file ?agg1 = Some (path_join dir ''core_state_patterns.csv'')"
    and af: "analysis_summary_file ?agg1 = Some (path_join dir ''state_pattern_summary.csv'')"
    by (simp_all add: idle_agg_def)
  have ratio: "(of_int (if actual then 1 else 0) :: rat) = (if actual then 1 else 0)"
    by simp
  have gen: "generate_analysis_summary ?agg1 fs1 [?rec] =
             (fs1(path_join dir ''state_pattern_summary.csv'' \<mapsto>
                    SummaryCsv [(hex ip_arg, 1, 50, 101, if actual then 1 else 0)]), None)" for fs1
    by (simp only: generate_analysis_summary_def idle_summary_scan Let_def ow af option.case
          idle_write_summary prod.case ratio)
  have fin: "hook_sim_end ?agg1 fs =
             (?agg1,
              (fs(path_join dir ''core_state_patterns.csv'' \<mapsto>
                    PatternsCsv [(1, icount 0, 0, 0, hex ip_arg, actual, replicate 101 5)]))
                 (path_join dir ''state_pattern_summary.csv'' \<mapsto>
                    SummaryCsv [(hex ip_arg, 1, 50, 101, if actual then 1 else 0)]),
              None)"
    by (simp only: hook_sim_end_def Let_def recs pf option.case list.map line gen prod.case)
  show ?thesis
    using s r recs len lst fin by blast
qed

theorem idle_run_gives_101_samples_witness:
  "(0::int) < 1 \<and>
   (\<exists>agg0 agg1.
      setup_analyzer (idle_sim 1 ''out'' (\<lambda>c. 1000) 0) CoreStateAtBranchEventAnalyzer
        (Some ''100:1'') = Inr agg0 \<and>
      run_events agg0 (idle_run 1 ''out'' (\<lambda>c. 1000) 4096 True True False) = Inr agg1 \<and>
      length (states (idle_record 1 (\<lambda>c. 1000) 4096 True 101)) = 101 \<and>
      hook_sim_end agg1 Map.empty =
        (agg1,
         [''out/core_state_patterns.csv'' \<mapsto>
            PatternsCsv [(1, 1000, 0, 0, ''0x1000'', True, replicate 101 5)],
          ''out/state_pattern_summary.csv'' \<mapsto>
            SummaryCsv [(''0x1000'', 1, 50, 101, 1)]],
         None))"
proof -
  have h: "(0::int) < 1" by simp
  show ?thesis
    using idle_run_gives_101_samples [OF h, of "''out''" "\<lambda>c. 1000" 4096 True True False Map.empty]
    by (simp add: hex_4096 path_join_def) blast
qed

end
